theory Spec2Isabelle
  imports Main "HOL-Library.AList"
begin

section \<open>Embedding resources: download, extraction and the word-to-index mapping\<close>

text \<open>
  A shallow embedding of \<^verbatim>\<open>bin/resources.py\<close>. The module is Python 2 code: a
  \<^verbatim>\<open>str\<close> is a byte string, and a file opened with mode \<^verbatim>\<open>'w+'\<close> on a POSIX
  system stores the bytes it is given unchanged. Byte strings are \<^typ>\<open>string\<close>
  (a list of 8-bit characters).

  What the module does beyond computing values is made explicit:
  \<^item> the filesystem is a map from paths to file contents, together with the set of
    paths that cannot be opened for writing (missing directory, permissions);
  \<^item> the operations on the outside world (HTTP requests, opening a gzip archive, writes
    to a file) are appended to a trace, oldest first;
  \<^item> an exception of a library call is an \<open>Inl\<close> result, returned with the world
    as it was when the exception was raised: the request, the iteration over the body,
    the opening of a file and the reading of an archive can raise.

  The libraries the module calls are parameters of the model: the answer of the network
  to a URL, the decompression function of \<^verbatim>\<open>gzip\<close> and the configuration lookup
  \<^verbatim>\<open>lib.get_conf\<close> (the record \<open>env\<close>), and the binary word-vector loader of
  \<^verbatim>\<open>gensim\<close>, an argument of \<^verbatim>\<open>create_embedding_matrix\<close>.
  Calls to \<^verbatim>\<open>logging\<close> and \<^verbatim>\<open>print\<close> only emit diagnostics and are left out,
  except where evaluating their arguments can raise. A write that fails after the file was
  opened (disk full) is not modelled.
\<close>

subsection \<open>Data model\<close>

type_synonym bytes = string
type_synonym path = string

datatype error =
    ConnectionError
  | MissingSchema
  | ChunkedEncodingError
  | IOError
  | RuntimeError
  | ValueError

text \<open>
  A \<^verbatim>\<open>requests.Response\<close> obtained with \<^verbatim>\<open>stream=True\<close>: \<^verbatim>\<open>requests.get\<close> returns
  one for every answer of the server, whatever its status code, before the body is read.
  \<open>iter_content r n = (chunks, failure)\<close> is what iterating over
  \<^verbatim>\<open>r.iter_content(chunk_size=n)\<close> gives: the pieces of the body, in the order and in the
  sizes in which the library yields them, and the error, if any, that ends the iteration
  after these pieces (the connection was lost). The sizes follow the framing of the
  transfer and the decoding of the content as well as \<open>n\<close>, and a piece may be empty;
  the body the server delivered is the pieces put end to end.
\<close>

datatype response =
  Response (status_code: nat) (iter_content: "nat \<Rightarrow> bytes list \<times> error option")

datatype call =
    Http_get string
  | Gzip_open path
  | File_write path nat

record world =
  files :: "path \<rightharpoonup> bytes"
  denied :: "path set"
  calls :: "call list"

text \<open>
  The collaborators. \<open>net env url = Inl e\<close>: \<^verbatim>\<open>requests.get(url)\<close> raises \<open>e\<close> (no
  connection can be made, the URL is malformed); otherwise it is the response.
  \<open>gunzip env z = (d, ok)\<close>: reading the archive \<open>z\<close> delivers the bytes \<open>d\<close>,
  and \<open>ok\<close> tells whether the archive was well formed to its end.
\<close>

record env =
  net :: "string \<Rightarrow> error + response"
  gunzip :: "bytes \<Rightarrow> bytes \<times> bool"
  get_conf :: "string \<Rightarrow> string"

text \<open>
  What \<^verbatim>\<open>gensim.models.KeyedVectors.load_word2vec_format\<close> returns: the matrix
  \<^verbatim>\<open>syn0\<close> as a list of rows, and \<^verbatim>\<open>vocab\<close>, a dictionary from words to entries
  holding the row \<^verbatim>\<open>index\<close> of the word.
\<close>

record vocab_entry =
  index :: int
  count :: int

record 'a keyed_vectors =
  syn0 :: "'a list list"
  vocab :: "(string \<times> vocab_entry) list"

subsection \<open>Filesystem, network and gzip primitives\<close>

definition os_path_exists :: "world \<Rightarrow> path \<Rightarrow> bool" where
  "os_path_exists w p = (files w p \<noteq> None)"

definition record_call :: "call \<Rightarrow> world \<Rightarrow> world" where
  "record_call c w = w\<lparr>calls := calls w @ [c]\<rparr>"

text \<open>
  \<^verbatim>\<open>requests.get(url, stream=True)\<close>: the call is recorded, and raises or returns as the
  environment says.
\<close>

definition requests_get :: "env \<Rightarrow> string \<Rightarrow> world \<Rightarrow> (error + response) \<times> world" where
  "requests_get env url w =
     (case net env url of
        Inl e \<Rightarrow> (Inl e, record_call (Http_get url) w)
      | Inr r \<Rightarrow> (Inr r, record_call (Http_get url) w))"

text \<open>\<^verbatim>\<open>open(p, 'wb')\<close> and \<^verbatim>\<open>open(p, 'w+')\<close>: create the file or truncate it.\<close>

definition open_w :: "path \<Rightarrow> world \<Rightarrow> (error + unit) \<times> world" where
  "open_w p w =
     (if p \<in> denied w then (Inl IOError, w)
      else (Inr (), w\<lparr>files := (files w)(p \<mapsto> [])\<rparr>))"

text \<open>\<^verbatim>\<open>f.write(data)\<close> on the file opened at \<open>p\<close>: appends.\<close>

definition file_write :: "path \<Rightarrow> bytes \<Rightarrow> world \<Rightarrow> world" where
  "file_write p data w =
     record_call (File_write p (length data))
       (w\<lparr>files := (files w)(p \<mapsto> (case files w p of None \<Rightarrow> data | Some old \<Rightarrow> old @ data))\<rparr>)"

text \<open>
  \<^verbatim>\<open>gzip.open(p, 'rb')\<close>: opens the underlying file, which must exist. The archive is
  read when the lines are asked for, from the file as it is then.
\<close>

definition gzip_open :: "path \<Rightarrow> world \<Rightarrow> (error + unit) \<times> world" where
  "gzip_open p w =
     (if os_path_exists w p then (Inr (), record_call (Gzip_open p) w)
      else (Inl IOError, record_call (Gzip_open p) w))"

definition gzip_read :: "env \<Rightarrow> path \<Rightarrow> world \<Rightarrow> bytes \<times> bool" where
  "gzip_read env p w = (case files w p of None \<Rightarrow> ([], False) | Some z \<Rightarrow> gunzip env z)"

text \<open>
  Iterating over a file yields its lines: each ends with its newline byte, except
  possibly the last.
\<close>

fun readlines :: "bytes \<Rightarrow> bytes list" where
  "readlines [] = []"
| "readlines (c # cs) =
     (if c = CHR 0x0A then [c] # readlines cs
      else (case readlines cs of [] \<Rightarrow> [[c]] | l # ls \<Rightarrow> (c # l) # ls))"

subsection \<open>download_file\<close>

text \<open>
  The loop of \<^verbatim>\<open>download_file\<close> over the chunks: a chunk is written when it is not
  empty, and the chunk counter goes up either way.
\<close>

fun write_chunks :: "path \<Rightarrow> bytes list \<Rightarrow> nat \<Rightarrow> world \<Rightarrow> nat \<times> world" where
  "write_chunks p [] chunk_count w = (chunk_count, w)"
| "write_chunks p (chunk # rest) chunk_count w =
     write_chunks p rest (chunk_count + 1) (if chunk \<noteq> [] then file_write p chunk w else w)"

text \<open>
  \<^verbatim>\<open>download_file\<close>: the request, then the destination is opened (and truncated), then
  the chunks that \<^verbatim>\<open>r.iter_content(chunk_size=1048576)\<close> yields are written. When the
  iteration ends with an error, the error leaves the function after the chunks that came
  before it were written.
\<close>

definition download_file :: "env \<Rightarrow> string \<Rightarrow> path \<Rightarrow> world \<Rightarrow> (error + path) \<times> world" where
  "download_file env url local_file_path w =
     (case requests_get env url w of
        (Inl e, w1) \<Rightarrow> (Inl e, w1)
      | (Inr r, w1) \<Rightarrow>
          (case open_w local_file_path w1 of
             (Inl e, w2) \<Rightarrow> (Inl e, w2)
           | (Inr _, w2) \<Rightarrow>
               (case iter_content r 1048576 of
                  (chunks, None) \<Rightarrow>
                    (Inr local_file_path, snd (write_chunks local_file_path chunks 0 w2))
                | (chunks, Some e) \<Rightarrow>
                    (Inl e, snd (write_chunks local_file_path chunks 0 w2)))))"

subsection \<open>download_embedding\<close>

definition embedding_download_link :: string where
  "embedding_download_link =
     ''https://s3.amazonaws.com/dl4j-distribution/GoogleNews-vectors-negative300.bin.gz''"

definition embedding_downloaded_path :: path where
  "embedding_downloaded_path = ''../resources/compressed/GoogleNews-vectors-negative300.bin.gz''"

text \<open>The loop \<^verbatim>\<open>for line in zipped: unzipped.write(line)\<close>.\<close>

fun write_lines :: "path \<Rightarrow> bytes list \<Rightarrow> world \<Rightarrow> world" where
  "write_lines p [] w = w"
| "write_lines p (line # rest) w = write_lines p rest (file_write p line w)"

text \<open>
  The \<^verbatim>\<open>with\<close> block of \<^verbatim>\<open>download_embedding\<close>: the archive is opened first, then
  the output file (which truncates it), then the lines the archive delivers are copied;
  an archive that is not well formed raises after the lines it delivered. Leaving the
  block closes both files, which changes nothing in the model.
\<close>

definition extract_archive :: "env \<Rightarrow> path \<Rightarrow> path \<Rightarrow> world \<Rightarrow> (error + unit) \<times> world" where
  "extract_archive env zipped_path unzipped_path w =
     (case gzip_open zipped_path w of
        (Inl e, w1) \<Rightarrow> (Inl e, w1)
      | (Inr _, w1) \<Rightarrow>
          (case open_w unzipped_path w1 of
             (Inl e, w2) \<Rightarrow> (Inl e, w2)
           | (Inr _, w2) \<Rightarrow>
               (case gzip_read env zipped_path w2 of
                  (d, ok) \<Rightarrow>
                    (if ok then Inr () else Inl IOError,
                     write_lines unzipped_path (readlines d) w2))))"

text \<open>The first gate of \<^verbatim>\<open>download_embedding\<close>: download embeddings, if necessary.\<close>

definition fetch_if_necessary :: "env \<Rightarrow> world \<Rightarrow> (error + unit) \<times> world" where
  "fetch_if_necessary env w =
     (if \<not> os_path_exists w embedding_downloaded_path then
        (case download_file env embedding_download_link embedding_downloaded_path w of
           (Inl e, w1) \<Rightarrow> (Inl e, w1)
         | (Inr _, w1) \<Rightarrow> (Inr (), w1))
      else (Inr (), w))"

text \<open>The second gate: extract embeddings, if necessary.\<close>

definition extract_if_necessary :: "env \<Rightarrow> world \<Rightarrow> (error + unit) \<times> world" where
  "extract_if_necessary env w =
     (if \<not> os_path_exists w (get_conf env ''embedding_path'') then
        extract_archive env embedding_downloaded_path (get_conf env ''embedding_path'') w
      else (Inr (), w))"

definition download_embedding :: "env \<Rightarrow> world \<Rightarrow> (error + unit) \<times> world" where
  "download_embedding env w =
     (case fetch_if_necessary env w of
        (Inl e, w1) \<Rightarrow> (Inl e, w1)
      | (Inr _, w1) \<Rightarrow> extract_if_necessary env w1)"

text \<open>
  The operations a run has added to the trace, and the network and decompression
  operations among them.
\<close>

definition new_calls :: "world \<Rightarrow> world \<Rightarrow> call list" where
  "new_calls w w' = drop (length (calls w)) (calls w')"

fun is_http_get :: "call \<Rightarrow> bool" where
  "is_http_get (Http_get url) = True"
| "is_http_get (Gzip_open p) = False"
| "is_http_get (File_write p n) = False"

fun is_gzip_open :: "call \<Rightarrow> bool" where
  "is_gzip_open (Http_get url) = False"
| "is_gzip_open (Gzip_open p) = True"
| "is_gzip_open (File_write p n) = False"

subsection \<open>create_embedding_matrix\<close>

text \<open>
  A Python dictionary is an association list in insertion order, without duplicate keys:
  \<^verbatim>\<open>d[k] = v\<close> is \<^const>\<open>AList.update\<close>. \<^verbatim>\<open>d.update(other)\<close> and \<^verbatim>\<open>dict(pairs)\<close>
  store the pairs one after the other.
\<close>

definition dict_update :: "('k \<times> 'v) list \<Rightarrow> ('k \<times> 'v) list \<Rightarrow> ('k \<times> 'v) list" where
  "dict_update d other = foldl (\<lambda>acc (k, v). AList.update k v acc) d other"

definition py_dict :: "('k \<times> 'v) list \<Rightarrow> ('k \<times> 'v) list" where
  "py_dict pairs = dict_update [] pairs"

text \<open>
  \<^verbatim>\<open>word_to_index[k]\<close> on the returned \<^verbatim>\<open>defaultdict\<close>. Its default factory is
  \<^verbatim>\<open>lambda: word_to_index['UNK']\<close>, and by the time it is called the variable
  \<^verbatim>\<open>word_to_index\<close> is bound to the \<^verbatim>\<open>defaultdict\<close> itself: for a missing key the
  factory looks \<^verbatim>\<open>'UNK'\<close> up in the same dictionary, and the value it returns is stored
  under the missing key. The first argument is the number of calls the interpreter still
  allows before its recursion limit; at the limit the call of the factory raises
  \<^verbatim>\<open>RuntimeError\<close> (maximum recursion depth exceeded).
\<close>

fun getitem :: "nat \<Rightarrow> (string \<times> int) list \<Rightarrow> string \<Rightarrow> (error + int) \<times> (string \<times> int) list" where
  "getitem 0 d k =
     (case map_of d k of
        Some v \<Rightarrow> (Inr v, d)
      | None \<Rightarrow> (Inl RuntimeError, d))"
| "getitem (Suc depth) d k =
     (case map_of d k of
        Some v \<Rightarrow> (Inr v, d)
      | None \<Rightarrow>
          (case getitem depth d ''UNK'' of
             (Inl e, d') \<Rightarrow> (Inl e, d')
           | (Inr v, d') \<Rightarrow> (Inr v, AList.update k v d')))"

text \<open>A sequence of lookups on the same mapping, with the results in order.\<close>

fun lookups :: "nat \<Rightarrow> (string \<times> int) list \<Rightarrow> string list \<Rightarrow> (error + int) list \<times> (string \<times> int) list" where
  "lookups depth d [] = ([], d)"
| "lookups depth d (k # ks) =
     (case getitem depth d k of
        (r, d') \<Rightarrow> (case lookups depth d' ks of (rs, d'') \<Rightarrow> (r # rs, d'')))"

text \<open>
  \<^verbatim>\<open>create_embedding_matrix\<close>, given the loader of \<^verbatim>\<open>gensim\<close>. The two last
  \<^verbatim>\<open>logging.info\<close> calls evaluate \<^verbatim>\<open>min\<close> and \<^verbatim>\<open>max\<close> of the values of the
  mapping, which raise \<^verbatim>\<open>ValueError\<close> on an empty sequence.
\<close>

definition create_embedding_matrix ::
  "(bytes \<Rightarrow> error + 'a keyed_vectors) \<Rightarrow> env \<Rightarrow> world
     \<Rightarrow> error + ('a list list \<times> (string \<times> int) list)" where
  "create_embedding_matrix load_word2vec_format env w =
     (case files w (get_conf env ''embedding_path'') of
        None \<Rightarrow> Inl IOError
      | Some raw \<Rightarrow>
          (case load_word2vec_format raw of
             Inl e \<Rightarrow> Inl e
           | Inr model \<Rightarrow>
               (let embedding_matrix = syn0 model;
                    word_to_index = py_dict (map (\<lambda>(k, v). (k, index v)) (vocab model));
                    default_dict_instance = dict_update [] word_to_index
                in if map snd default_dict_instance = [] then Inl ValueError
                   else Inr (embedding_matrix, default_dict_instance))))"



subsection \<open>A small fixture\<close>

text \<open>
  Three words of dimensionality 4, one of them \<^verbatim>\<open>UNK\<close>, stored at the configured
  embedding path.
\<close>

definition fixture_model :: "int keyed_vectors" where
  "fixture_model =
     \<lparr>syn0 = [[1, 2, 3, 4], [5, 6, 7, 8], [9, 10, 11, 12]],
      vocab = [(''UNK'', \<lparr>index = 0, count = 3\<rparr>),
               (''the'', \<lparr>index = 1, count = 2\<rparr>),
               (''cat'', \<lparr>index = 2, count = 1\<rparr>)]\<rparr>"

definition fixture_env :: env where
  "fixture_env =
     \<lparr>net = (\<lambda>url. Inl ConnectionError), gunzip = (\<lambda>z. (z, True)), get_conf = (\<lambda>key. ''embedding.bin'')\<rparr>"

definition fixture_world :: world where
  "fixture_world = \<lparr>files = [''embedding.bin'' \<mapsto> ''raw''], denied = {}, calls = []\<rparr>"

definition fixture_load :: "bytes \<Rightarrow> error + int keyed_vectors" where
  "fixture_load raw = Inr fixture_model"

text \<open>The same fixture without the \<^verbatim>\<open>UNK\<close> entry.\<close>

definition fixture_model_without_unk :: "int keyed_vectors" where
  "fixture_model_without_unk =
     \<lparr>syn0 = [[1, 2, 3, 4], [5, 6, 7, 8]],
      vocab = [(''the'', \<lparr>index = 0, count = 2\<rparr>),
               (''cat'', \<lparr>index = 1, count = 1\<rparr>)]\<rparr>"

subsection \<open>Sample environments\<close>

text \<open>
  A toy decompression for the examples: an archive is the two magic bytes of gzip followed
  by the data as it is. One server delivers such an archive at the download link, one
  answers every request with an empty body, one with status 404 and an error page, one
  delivers a body of nine bytes in two pieces, and one cannot be reached. A further
  response has an empty piece between the two.
\<close>

definition stored_gunzip :: "bytes \<Rightarrow> bytes \<times> bool" where
  "stored_gunzip z = (drop 2 z, take 2 z = [CHR 0x1F, CHR 0x8B])"

definition text_lines :: bytes where
  "text_lines = ''the 1'' @ [CHR 0x0A] @ ''cat 2'' @ [CHR 0x0A] @ ''UNK 3''"

definition archive_bytes :: bytes where
  "archive_bytes = [CHR 0x1F, CHR 0x8B] @ text_lines"

definition serving_env :: env where
  "serving_env =
     \<lparr>net = (\<lambda>url. if url = embedding_download_link
                   then Inr (Response 200 (\<lambda>n. ([archive_bytes], None)))
                   else Inl ConnectionError),
      gunzip = stored_gunzip,
      get_conf = (\<lambda>key. ''../resources/embedding.bin'')\<rparr>"

definition empty_body_env :: env where
  "empty_body_env =
     \<lparr>net = (\<lambda>url. Inr (Response 200 (\<lambda>n. ([], None)))),
      gunzip = stored_gunzip,
      get_conf = (\<lambda>key. ''../resources/embedding.bin'')\<rparr>"

definition stale_world :: world where
  "stale_world = \<lparr>files = [''archive.gz'' \<mapsto> ''stale content''], denied = {}, calls = []\<rparr>"

definition empty_world :: world where
  "empty_world = \<lparr>files = Map.empty, denied = {}, calls = []\<rparr>"

definition not_found_response :: response where
  "not_found_response = Response 404 (\<lambda>n. ([''Not Found''], None))"

definition not_found_env :: env where
  "not_found_env =
     \<lparr>net = (\<lambda>url. Inr not_found_response),
      gunzip = (\<lambda>z. ([], False)),
      get_conf = (\<lambda>key. ''embedding.bin'')\<rparr>"

definition chunked_response :: response where
  "chunked_response = Response 200 (\<lambda>n. ([''abcd'', ''efghi''], None))"

definition keep_alive_response :: response where
  "keep_alive_response = Response 200 (\<lambda>n. ([''abcd'', [], ''efghi''], None))"

definition chunked_env :: env where
  "chunked_env =
     \<lparr>net = (\<lambda>url. Inr chunked_response),
      gunzip = stored_gunzip,
      get_conf = (\<lambda>key. ''../resources/embedding.bin'')\<rparr>"


text \<open>
  A filesystem that holds the archive only, one that holds the archive and does not let
  the extracted file be opened, and one that holds the archive and the extracted file.
\<close>

definition archived_world :: world where
  "archived_world =
     \<lparr>files = [embedding_downloaded_path \<mapsto> archive_bytes], denied = {}, calls = []\<rparr>"


definition ready_world :: world where
  "ready_world =
     \<lparr>files = [embedding_downloaded_path \<mapsto> archive_bytes,
               ''../resources/embedding.bin'' \<mapsto> text_lines],
      denied = {}, calls = []\<rparr>"

section \<open>Properties\<close>

subsection \<open>Dictionaries and lookups\<close>



lemma keys_dict_update: "fst ` set (dict_update d other) = fst ` set d \<union> fst ` set other"
proof (induction other arbitrary: d)
  case Nil
  then show ?case by (simp add: dict_update_def)
next
  case (Cons p ps)
  obtain k v where p: "p = (k, v)" by (cases p)
  have "fst ` set (dict_update (AList.update k v d) ps) = fst ` set (AList.update k v d) \<union> fst ` set ps"
    by (rule Cons.IH)
  then show ?case by (auto simp: dict_update_def p dom_update)
qed

lemma getitem_no_unk:
  "map_of d ''UNK'' = None \<Longrightarrow> map_of d k = None \<Longrightarrow> getitem n d k = (Inl RuntimeError, d)"
  by (induction n arbitrary: k) simp_all

lemma getitem_present: "map_of d k = Some v \<Longrightarrow> getitem n d k = (Inr v, d)"
  by (cases n) simp_all

lemma getitem_eq:
  "getitem n d k =
     (case map_of d k of
        Some v \<Rightarrow> (Inr v, d)
      | None \<Rightarrow>
          (case map_of d ''UNK'' of
             None \<Rightarrow> (Inl RuntimeError, d)
           | Some u \<Rightarrow> if n = 0 then (Inl RuntimeError, d) else (Inr u, AList.update k u d)))"
proof (cases n)
  case 0
  then show ?thesis by (simp split: option.splits)
next
  case (Suc m)
  show ?thesis
  proof (cases "map_of d ''UNK''")
    case None
    then show ?thesis by (cases "map_of d k") (simp_all add: getitem_no_unk getitem_present)
  next
    case (Some u)
    then have "getitem m d ''UNK'' = (Inr u, d)" by (rule getitem_present)
    with Some Suc show ?thesis by (cases "map_of d k") (simp_all add: getitem_present)
  qed
qed

lemma map_fst_entries: "map fst (map (\<lambda>(k, v). (k, f v)) xs) = map fst xs"
  by (induction xs) auto



subsection \<open>The mapping returned by create_embedding_matrix\<close>



lemma create_embedding_matrix_keys:
  assumes "files w (get_conf env ''embedding_path'') = Some raw"
    and "load raw = Inr model"
    and "create_embedding_matrix load env w = Inr (matrix, mapping)"
  shows "matrix = syn0 model \<and> fst ` set mapping = fst ` set (vocab model)"
proof -
  let ?ps = "map (\<lambda>(k, v). (k, index v)) (vocab model)"
  from assms have "matrix = syn0 model" and m: "mapping = dict_update [] (py_dict ?ps)"
    by (simp_all add: create_embedding_matrix_def Let_def split: if_splits)
  moreover have "fst ` set (dict_update [] (py_dict ?ps)) = fst ` set ?ps"
    by (simp add: py_dict_def keys_dict_update)
  moreover have "set (map fst ?ps) = set (map fst (vocab model))"
    by (simp only: map_fst_entries)
  then have "fst ` set ?ps = fst ` set (vocab model)"
    by (simp only: set_map)
  ultimately show ?thesis by simp
qed

lemma snd_lookups_Cons:
  "snd (lookups n d (k # ks)) = snd (lookups n (snd (getitem n d k)) ks)"
  by (simp split: prod.splits)

lemma lookups_no_unk:
  "map_of d ''UNK'' = None \<Longrightarrow> snd (lookups n d ks) = d"
proof (induction ks)
  case Nil
  then show ?case by simp
next
  case (Cons k ks)
  from Cons.prems have "snd (getitem n d k) = d"
    by (simp add: getitem_eq split: option.splits)
  with Cons show ?case by (simp only: snd_lookups_Cons)
qed

text \<open>
  C8. When \<^verbatim>\<open>UNK\<close> is not in the source vocabulary, a lookup of a key outside the
  vocabulary in the returned mapping raises, whatever the recursion limit: the default
  factory looks \<^verbatim>\<open>UNK\<close> up in the same mapping, which calls the factory again, until
  the interpreter stops the recursion. Nothing is stored, so the mapping is as returned
  after any sequence of lookups, and the first lookup of such a key fails like every
  later one.
\<close>

theorem getitem_without_unk_raises:
  assumes "files w (get_conf env ''embedding_path'') = Some raw"
    and "load raw = Inr model"
    and "create_embedding_matrix load env w = Inr (matrix, mapping)"
    and "''UNK'' \<notin> fst ` set (vocab model)"
    and "k \<notin> fst ` set (vocab model)"
  shows "getitem limit mapping k = (Inl RuntimeError, mapping) \<and>
         snd (lookups limit mapping ks) = mapping"
proof -
  from assms(1-3) have keys: "fst ` set mapping = fst ` set (vocab model)"
    by (simp add: create_embedding_matrix_keys)
  with assms(4) have unk: "map_of mapping ''UNK'' = None"
    by (simp add: map_of_eq_None_iff)
  from keys assms(5) have "map_of mapping k = None"
    by (simp add: map_of_eq_None_iff)
  with unk show ?thesis by (simp add: getitem_no_unk lookups_no_unk)
qed

theorem getitem_without_unk_raises_witness:
  "create_embedding_matrix (\<lambda>raw. Inr fixture_model_without_unk) fixture_env fixture_world
     = Inr ([[1, 2, 3, 4], [5, 6, 7, 8]], [(''the'', 0), (''cat'', 1)]) \<and>
   getitem 1000 [(''the'', 0), (''cat'', 1)] ''dog'' = (Inl RuntimeError, [(''the'', 0), (''cat'', 1)])"
proof -
  have h1: "files fixture_world (get_conf fixture_env ''embedding_path'') = Some ''raw''"
    by (simp add: fixture_world_def fixture_env_def)
  have h2: "(\<lambda>raw. Inr fixture_model_without_unk) ''raw'' = Inr fixture_model_without_unk"
    by simp
  have h3: "create_embedding_matrix (\<lambda>raw. Inr fixture_model_without_unk) fixture_env fixture_world
     = Inr ([[1, 2, 3, 4], [5, 6, 7, 8]], [(''the'', 0), (''cat'', 1)])"
    by (simp add: create_embedding_matrix_def fixture_world_def fixture_env_def
        fixture_model_without_unk_def py_dict_def dict_update_def)
  have h4: "''UNK'' \<notin> fst ` set (vocab fixture_model_without_unk)"
    by (simp add: fixture_model_without_unk_def)
  have h5: "''dog'' \<notin> fst ` set (vocab fixture_model_without_unk)"
    by (simp add: fixture_model_without_unk_def)
  from getitem_without_unk_raises [of fixture_world fixture_env "''raw''"
      "\<lambda>raw. Inr fixture_model_without_unk" fixture_model_without_unk _ _ "''dog''" 1000,
      OF h1 h2 h3 h4 h5]
  show ?thesis using h3 by simp
qed

lemma getitem_step:
  "snd (getitem n d k) = d \<or>
   (map_of d k = None \<and> (\<exists>u. map_of d ''UNK'' = Some u \<and> snd (getitem n d k) = AList.update k u d))"
  by (simp add: getitem_eq split: option.splits)

lemma lookups_entries:
  "(\<forall>k v. map_of d k = Some v \<longrightarrow> map_of (snd (lookups n d ks)) k = Some v) \<and>
   (\<forall>k. map_of d k = None \<longrightarrow> map_of (snd (lookups n d ks)) k \<noteq> None \<longrightarrow>
      k \<in> set ks \<and> map_of (snd (lookups n d ks)) k = map_of d ''UNK'')"
proof (induction ks arbitrary: d)
  case Nil
  then show ?case by simp
next
  case (Cons a ks)
  let ?d1 = "snd (getitem n d a)"
  have unfold: "snd (lookups n d (a # ks)) = snd (lookups n ?d1 ks)"
    by (rule snd_lookups_Cons)
  from getitem_step [of n d a] show ?case
  proof
    assume "?d1 = d"
    with Cons.IH [of d] unfold show ?thesis by simp
  next
    assume "map_of d a = None \<and> (\<exists>u. map_of d ''UNK'' = Some u \<and> ?d1 = AList.update a u d)"
    then obtain u where absent: "map_of d a = None" and unk: "map_of d ''UNK'' = Some u"
      and d1: "?d1 = AList.update a u d" by blast
    have m1: "map_of ?d1 = (map_of d)(a \<mapsto> u)" by (simp add: d1 update_conv')
    from absent unk have "a \<noteq> ''UNK''" by auto
    with m1 unk have unk1: "map_of ?d1 ''UNK'' = Some u" by simp
    note ih = Cons.IH [of ?d1]
    show ?thesis
    proof (intro conjI allI impI)
      fix k v assume "map_of d k = Some v"
      with absent have "k \<noteq> a" by auto
      with m1 \<open>map_of d k = Some v\<close> have "map_of ?d1 k = Some v" by simp
      with ih unfold show "map_of (snd (lookups n d (a # ks))) k = Some v" by simp
    next
      fix k assume none: "map_of d k = None"
        and some: "map_of (snd (lookups n d (a # ks))) k \<noteq> None"
      show "k \<in> set (a # ks)"
      proof (cases "k = a")
        case True then show ?thesis by simp
      next
        case False
        with m1 none have "map_of ?d1 k = None" by simp
        with ih some unfold show ?thesis by simp
      qed
    next
      fix k assume none: "map_of d k = None"
        and some: "map_of (snd (lookups n d (a # ks))) k \<noteq> None"
      show "map_of (snd (lookups n d (a # ks))) k = map_of d ''UNK''"
      proof (cases "k = a")
        case True
        with m1 have "map_of ?d1 k = Some u" by simp
        with ih have "map_of (snd (lookups n ?d1 ks)) k = Some u" by blast
        with unfold unk show ?thesis by simp
      next
        case False
        with m1 none have "map_of ?d1 k = None" by simp
        with ih some unfold unk1 unk show ?thesis by simp
      qed
    qed
  qed
qed

lemma getitem_stores:
  assumes "map_of d ''UNK'' = Some u" and "0 < n"
  shows "map_of (snd (getitem n d k)) k \<noteq> None \<and> map_of (snd (getitem n d k)) ''UNK'' = Some u"
proof (cases "map_of d k")
  case None
  with assms have "snd (getitem n d k) = AList.update k u d" by (simp add: getitem_eq)
  with assms show ?thesis by (simp add: update_conv')
next
  case (Some v)
  then have "snd (getitem n d k) = d" by (simp add: getitem_present)
  with Some assms show ?thesis by simp
qed

lemma lookups_stores:
  "map_of d ''UNK'' = Some u \<Longrightarrow> 0 < n \<Longrightarrow> k \<in> set ks \<Longrightarrow>
   map_of (snd (lookups n d ks)) k \<noteq> None"
proof (induction ks arbitrary: d)
  case Nil
  then show ?case by simp
next
  case (Cons a ks)
  let ?d1 = "snd (getitem n d a)"
  from getitem_stores [OF Cons.prems(1,2), of a]
  have stored: "map_of ?d1 a \<noteq> None" and unk: "map_of ?d1 ''UNK'' = Some u"
    by simp_all
  show ?case
  proof (cases "k = a")
    case True
    from stored obtain v where "map_of ?d1 a = Some v" by auto
    with lookups_entries [of ?d1 n ks] have "map_of (snd (lookups n ?d1 ks)) a = Some v"
      by blast
    with True have "map_of (snd (lookups n ?d1 ks)) k \<noteq> None" by simp
    then show ?thesis unfolding snd_lookups_Cons .
  next
    case False
    with Cons.prems(3) have "k \<in> set ks" by simp
    with unk Cons.prems(2) have "map_of (snd (lookups n ?d1 ks)) k \<noteq> None"
      by (rule Cons.IH)
    then show ?thesis unfolding snd_lookups_Cons .
  qed
qed

lemma lookups_present:
  "set ks \<subseteq> fst ` set d \<Longrightarrow> snd (lookups n d ks) = d"
proof (induction ks)
  case Nil
  then show ?case by simp
next
  case (Cons k ks)
  from Cons.prems have "k \<in> fst ` set d" by simp
  then obtain v where "map_of d k = Some v"
    by (metis map_of_eq_None_iff not_Some_eq)
  then have "snd (getitem n d k) = d" by (simp add: getitem_present)
  moreover from Cons.prems have "set ks \<subseteq> fst ` set d" by simp
  ultimately show ?case using Cons.IH by (simp only: snd_lookups_Cons)
qed

text \<open>
  C9, as the code has it. A sequence of lookups never changes or removes an entry the
  mapping holds, and leaves the mapping as it is when every key looked up is in it. But a
  lookup of a key that is not in the mapping stores it: when \<^verbatim>\<open>UNK\<close> is in the mapping
  (and the interpreter has room for the call of the default factory), every key looked up
  that was not in the mapping is in it afterwards, bound to the row index of \<^verbatim>\<open>UNK\<close>.
  These are the only new keys: a key that is in the mapping afterwards and was not before
  is one of the keys looked up.
\<close>

theorem lookups_keep_entries:
  "(\<forall>k v. map_of d k = Some v \<longrightarrow> map_of (snd (lookups depth d ks)) k = Some v) \<and>
   (\<forall>k u. 0 < depth \<longrightarrow> map_of d ''UNK'' = Some u \<longrightarrow> k \<in> set ks \<longrightarrow> map_of d k = None \<longrightarrow>
      map_of (snd (lookups depth d ks)) k = Some u) \<and>
   (\<forall>k. map_of d k = None \<longrightarrow> map_of (snd (lookups depth d ks)) k \<noteq> None \<longrightarrow>
      k \<in> set ks \<and> map_of (snd (lookups depth d ks)) k = map_of d ''UNK'') \<and>
   (set ks \<subseteq> fst ` set d \<longrightarrow> snd (lookups depth d ks) = d)"
proof -
  note entries = lookups_entries [of d depth ks]
  have stored: "map_of (snd (lookups depth d ks)) k = Some u"
    if "0 < depth" and "map_of d ''UNK'' = Some u" and "k \<in> set ks" and "map_of d k = None"
    for k u
  proof -
    from that(2,1,3) have "map_of (snd (lookups depth d ks)) k \<noteq> None"
      by (rule lookups_stores)
    with entries that(4) have "map_of (snd (lookups depth d ks)) k = map_of d ''UNK''"
      by blast
    with that(2) show ?thesis by simp
  qed
  from entries stored lookups_present [of ks d depth] show ?thesis by blast
qed

theorem lookups_keep_entries_witness:
  "map_of [(''UNK'', 0), (''the'', 1), (''cat'', 2 :: int)] ''cat'' = Some 2 \<and>
   map_of (snd (lookups 1000 [(''UNK'', 0), (''the'', 1), (''cat'', 2)] [''dog'', ''cat''])) ''cat'' = Some 2 \<and>
   (0::nat) < 1000 \<and>
   map_of [(''UNK'', 0), (''the'', 1), (''cat'', 2 :: int)] ''UNK'' = Some 0 \<and>
   ''dog'' \<in> set [''dog'', ''cat''] \<and>
   map_of [(''UNK'', 0), (''the'', 1), (''cat'', 2 :: int)] ''dog'' = None \<and>
   map_of (snd (lookups 1000 [(''UNK'', 0), (''the'', 1), (''cat'', 2)] [''dog'', ''cat''])) ''dog'' = Some 0 \<and>
   set [''the'', ''cat''] \<subseteq> fst ` set [(''UNK'', 0 :: int), (''the'', 1), (''cat'', 2)] \<and>
   snd (lookups 1000 [(''UNK'', 0), (''the'', 1), (''cat'', 2)] [''the'', ''cat''])
     = [(''UNK'', 0), (''the'', 1), (''cat'', 2)]"
proof -
  have h1: "map_of [(''UNK'', 0), (''the'', 1), (''cat'', 2 :: int)] ''cat'' = Some 2" by simp
  have h2: "set [''the'', ''cat''] \<subseteq> fst ` set [(''UNK'', 0 :: int), (''the'', 1), (''cat'', 2)]"
    by simp
  have h3: "(0::nat) < 1000" by simp
  have h4: "map_of [(''UNK'', 0), (''the'', 1), (''cat'', 2 :: int)] ''UNK'' = Some 0" by simp
  have h5: "''dog'' \<in> set [''dog'', ''cat'']" by simp
  have h6: "map_of [(''UNK'', 0), (''the'', 1), (''cat'', 2 :: int)] ''dog'' = None" by simp
  note inst = lookups_keep_entries [of "[(''UNK'', 0), (''the'', 1), (''cat'', 2)]" 1000 "[''dog'', ''cat'']"]
  from inst h1
  have c1: "map_of (snd (lookups 1000 [(''UNK'', 0), (''the'', 1), (''cat'', 2)] [''dog'', ''cat''])) ''cat'' = Some 2"
    by blast
  from inst h3 h4 h5 h6
  have c2: "map_of (snd (lookups 1000 [(''UNK'', 0), (''the'', 1), (''cat'', 2)] [''dog'', ''cat''])) ''dog'' = Some 0"
    by blast
  from lookups_keep_entries [of "[(''UNK'', 0), (''the'', 1), (''cat'', 2)]" 1000 "[''the'', ''cat'']"] h2
  have c3: "snd (lookups 1000 [(''UNK'', 0), (''the'', 1), (''cat'', 2)] [''the'', ''cat''])
     = [(''UNK'', 0), (''the'', 1), (''cat'', 2)]"
    by blast
  from h1 h2 h3 h4 h5 h6 c1 c2 c3 show ?thesis by blast
qed

text \<open>
  C9, as stated, fails: on the mapping of the fixture, the lookup of \<^verbatim>\<open>dog\<close> returns
  the row index of \<^verbatim>\<open>UNK\<close> and stores \<^verbatim>\<open>dog\<close> in the mapping, whose set of keys
  has changed.
\<close>

theorem mapping_read_only_counterexample:
  "create_embedding_matrix fixture_load fixture_env fixture_world
     = Inr ([[1, 2, 3, 4], [5, 6, 7, 8], [9, 10, 11, 12]], [(''UNK'', 0), (''the'', 1), (''cat'', 2)]) \<and>
   lookups 1000 [(''UNK'', 0), (''the'', 1), (''cat'', 2)] [''dog'']
     = ([Inr 0], [(''UNK'', 0), (''the'', 1), (''cat'', 2), (''dog'', 0)]) \<and>
   ''dog'' \<in> fst ` set [(''UNK'', 0 :: int), (''the'', 1), (''cat'', 2), (''dog'', 0)] \<and>
   ''dog'' \<notin> fst ` set [(''UNK'', 0 :: int), (''the'', 1), (''cat'', 2)]"
proof (intro conjI)
  show "create_embedding_matrix fixture_load fixture_env fixture_world
     = Inr ([[1, 2, 3, 4], [5, 6, 7, 8], [9, 10, 11, 12]], [(''UNK'', 0), (''the'', 1), (''cat'', 2)])"
    by (simp add: create_embedding_matrix_def fixture_world_def fixture_env_def fixture_load_def
        fixture_model_def py_dict_def dict_update_def)
  show "lookups 1000 [(''UNK'', 0), (''the'', 1), (''cat'', 2)] [''dog'']
     = ([Inr 0], [(''UNK'', 0), (''the'', 1), (''cat'', 2), (''dog'', 0)])"
    by (simp add: getitem_eq)
  show "''dog'' \<in> fst ` set [(''UNK'', 0 :: int), (''the'', 1), (''cat'', 2), (''dog'', 0)]"
    by simp
  show "''dog'' \<notin> fst ` set [(''UNK'', 0 :: int), (''the'', 1), (''cat'', 2)]"
    by simp
qed

subsection \<open>download_file\<close>

lemma write_chunks_eq:
  "files w p = Some old \<Longrightarrow>
   write_chunks p chunks chunk_count w =
     (chunk_count + length chunks,
      w\<lparr>files := (files w)(p \<mapsto> old @ concat chunks),
        calls := calls w @ map (\<lambda>c. File_write p (length c)) (filter (\<lambda>c. c \<noteq> []) chunks)\<rparr>)"
proof (induction chunks arbitrary: chunk_count w old)
  case Nil
  then have "(files w)(p \<mapsto> old) = files w" by (rule map_upd_triv)
  then show ?case by simp
next
  case (Cons chunk rest)
  show ?case
  proof (cases "chunk = []")
    case True
    with Cons show ?thesis by simp
  next
    case False
    let ?w1 = "w\<lparr>files := (files w)(p \<mapsto> old @ chunk),
                 calls := calls w @ [File_write p (length chunk)]\<rparr>"
    from Cons.prems have w1: "file_write p chunk w = ?w1"
      by (simp add: file_write_def record_call_def)
    have f1: "files ?w1 p = Some (old @ chunk)" by simp
    have "write_chunks p (chunk # rest) chunk_count w = write_chunks p rest (chunk_count + 1) ?w1"
      using False w1 by simp
    also have "\<dots> = (chunk_count + 1 + length rest,
        ?w1\<lparr>files := (files ?w1)(p \<mapsto> (old @ chunk) @ concat rest),
            calls := calls ?w1 @ map (\<lambda>c. File_write p (length c)) (filter (\<lambda>c. c \<noteq> []) rest)\<rparr>)"
      by (rule Cons.IH [OF f1])
    also have "\<dots> = (chunk_count + length (chunk # rest),
        w\<lparr>files := (files w)(p \<mapsto> old @ concat (chunk # rest)),
          calls := calls w @ map (\<lambda>c. File_write p (length c)) (filter (\<lambda>c. c \<noteq> []) (chunk # rest))\<rparr>)"
      using False by simp
    finally show ?thesis .
  qed
qed

lemma download_file_raised:
  "net env url = Inl e \<Longrightarrow>
   download_file env url dest w = (Inl e, w\<lparr>calls := calls w @ [Http_get url]\<rparr>)"
  by (simp add: download_file_def requests_get_def record_call_def)

lemma download_file_denied:
  "net env url = Inr r \<Longrightarrow> dest \<in> denied w \<Longrightarrow>
   download_file env url dest w = (Inl IOError, w\<lparr>calls := calls w @ [Http_get url]\<rparr>)"
  by (simp add: download_file_def requests_get_def record_call_def open_w_def)

lemma download_file_streamed:
  assumes "net env url = Inr r" and "dest \<notin> denied w"
    and "iter_content r 1048576 = (chunks, failure)"
  shows "download_file env url dest w =
     ((case failure of None \<Rightarrow> Inr dest | Some e \<Rightarrow> Inl e),
      w\<lparr>files := (files w)(dest \<mapsto> concat chunks),
        calls := calls w @ Http_get url #
          map (\<lambda>c. File_write dest (length c)) (filter (\<lambda>c. c \<noteq> []) chunks)\<rparr>)"
proof -
  let ?w2 = "w\<lparr>calls := calls w @ [Http_get url], files := (files w)(dest \<mapsto> [])\<rparr>"
  have f: "files ?w2 dest = Some []" by simp
  from write_chunks_eq [OF f, of chunks 0]
  have "snd (write_chunks dest chunks 0 ?w2) =
      w\<lparr>files := (files w)(dest \<mapsto> concat chunks),
        calls := calls w @ Http_get url #
          map (\<lambda>c. File_write dest (length c)) (filter (\<lambda>c. c \<noteq> []) chunks)\<rparr>"
    by simp
  with assms show ?thesis
    by (cases failure)
      (simp_all add: download_file_def requests_get_def record_call_def open_w_def)
qed

lemma download_file_calls:
  "\<exists>ns. calls (snd (download_file env url dest w)) =
          calls w @ Http_get url # map (\<lambda>n. File_write dest n) ns"
proof (cases "net env url")
  case (Inl e)
  then have "calls (snd (download_file env url dest w)) =
      calls w @ Http_get url # map (\<lambda>n. File_write dest n) []"
    by (simp add: download_file_raised)
  then show ?thesis by blast
next
  case (Inr r)
  show ?thesis
  proof (cases "dest \<in> denied w")
    case True
    with Inr have "calls (snd (download_file env url dest w)) =
        calls w @ Http_get url # map (\<lambda>n. File_write dest n) []"
      by (simp add: download_file_denied)
    then show ?thesis by blast
  next
    case False
    obtain chunks failure where it: "iter_content r 1048576 = (chunks, failure)"
      by (cases "iter_content r 1048576")
    have "calls (snd (download_file env url dest w)) =
        calls w @ Http_get url #
          map (\<lambda>n. File_write dest n) (map length (filter (\<lambda>c. c \<noteq> []) chunks))"
      by (simp add: download_file_streamed [OF Inr False it] o_def)
    then show ?thesis by blast
  qed
qed


text \<open>
  C5, as the code has it. When the server answers the request for \<open>url\<close>, its body is
  delivered to the end and the destination can be opened, \<^verbatim>\<open>download_file\<close> returns the
  destination path and leaves in the destination file exactly the bytes of the body,
  whatever the file held before; no other file changes. The body is asked for with a chunk
  size of 1048576 bytes and written piece by piece, in order, each piece that is not empty
  in one write, in the sizes in which the library yields the pieces.
\<close>

theorem download_file_writes_body:
  assumes "net env url = Inr r" and "iter_content r 1048576 = (chunks, None)"
    and "dest \<notin> denied w"
  shows "fst (download_file env url dest w) = Inr dest \<and>
         files (snd (download_file env url dest w)) dest = Some (concat chunks) \<and>
         (\<forall>p. p \<noteq> dest \<longrightarrow> files (snd (download_file env url dest w)) p = files w p) \<and>
         new_calls w (snd (download_file env url dest w)) =
           Http_get url # map (\<lambda>c. File_write dest (length c)) (filter (\<lambda>c. c \<noteq> []) chunks)"
proof -
  from assms have eq: "download_file env url dest w =
      (Inr dest, w\<lparr>files := (files w)(dest \<mapsto> concat chunks),
         calls := calls w @ Http_get url #
           map (\<lambda>c. File_write dest (length c)) (filter (\<lambda>c. c \<noteq> []) chunks)\<rparr>)"
    by (simp add: download_file_streamed)
  then show ?thesis by (simp add: new_calls_def)
qed

theorem download_file_writes_body_witness:
  "net (chunked_env\<lparr>net := \<lambda>url. Inr keep_alive_response\<rparr>) ''http://host/vectors''
     = Inr keep_alive_response \<and>
   iter_content keep_alive_response 1048576 = ([''abcd'', [], ''efghi''], None) \<and>
   ''archive.gz'' \<notin> denied stale_world \<and>
   files stale_world ''archive.gz'' = Some ''stale content'' \<and>
   fst (download_file (chunked_env\<lparr>net := \<lambda>url. Inr keep_alive_response\<rparr>)
          ''http://host/vectors'' ''archive.gz'' stale_world) = Inr ''archive.gz'' \<and>
   files (snd (download_file (chunked_env\<lparr>net := \<lambda>url. Inr keep_alive_response\<rparr>)
                 ''http://host/vectors'' ''archive.gz'' stale_world)) ''archive.gz''
     = Some ''abcdefghi'' \<and>
   new_calls stale_world
     (snd (download_file (chunked_env\<lparr>net := \<lambda>url. Inr keep_alive_response\<rparr>)
             ''http://host/vectors'' ''archive.gz'' stale_world))
     = [Http_get ''http://host/vectors'', File_write ''archive.gz'' 4, File_write ''archive.gz'' 5]"
proof -
  let ?env = "chunked_env\<lparr>net := \<lambda>url. Inr keep_alive_response\<rparr>"
  have h1: "net ?env ''http://host/vectors'' = Inr keep_alive_response"
    by simp
  have h2: "iter_content keep_alive_response 1048576 = ([''abcd'', [], ''efghi''], None)"
    by (simp add: keep_alive_response_def)
  have h3: "''archive.gz'' \<notin> denied stale_world"
    by (simp add: stale_world_def)
  have h4: "files stale_world ''archive.gz'' = Some ''stale content''"
    by (simp add: stale_world_def)
  from download_file_writes_body [OF h1 h2 h3] h1 h2 h3 h4 show ?thesis by simp
qed

text \<open>
  C5, as stated, fails: a body of nine bytes that the library yields in two pieces is
  written in two writes, of four and of five bytes, not as chunks of a fixed size.
\<close>

theorem download_file_fixed_size_counterexample:
  "net chunked_env ''http://host/vectors'' = Inr chunked_response \<and>
   iter_content chunked_response 1048576 = ([''abcd'', ''efghi''], None) \<and>
   length ''abcd'' \<noteq> 1048576 \<and>
   download_file chunked_env ''http://host/vectors'' ''archive.gz'' stale_world =
     (Inr ''archive.gz'',
      \<lparr>files = [''archive.gz'' \<mapsto> ''abcdefghi''], denied = {},
       calls = [Http_get ''http://host/vectors'', File_write ''archive.gz'' 4,
                File_write ''archive.gz'' 5]\<rparr>)"
proof -
  have h1: "net chunked_env ''http://host/vectors'' = Inr chunked_response"
    by (simp add: chunked_env_def)
  have h2: "iter_content chunked_response 1048576 = ([''abcd'', ''efghi''], None)"
    by (simp add: chunked_response_def)
  have h3: "''archive.gz'' \<notin> denied stale_world"
    by (simp add: stale_world_def)
  from download_file_streamed [OF h1 h3 h2] h1 h2 show ?thesis
    by (simp add: stale_world_def)
qed

text \<open>
  C7, as the code has it. \<^verbatim>\<open>download_file\<close> never looks at the status code: an answer
  with any status is handled exactly like the same answer with another status. When the
  body of the answer is delivered to the end and the destination can be opened, whatever
  the status, the body is written to the destination and the destination path is
  returned.
\<close>

theorem download_file_ignores_status:
  "(net env url = Inr (Response status body) \<longrightarrow>
    net env' url = Inr (Response status' body) \<longrightarrow>
      download_file env' url dest w = download_file env url dest w) \<and>
   (\<forall>chunks. net env url = Inr (Response status body) \<longrightarrow>
      body 1048576 = (chunks, None) \<longrightarrow> dest \<notin> denied w \<longrightarrow>
      fst (download_file env url dest w) = Inr dest \<and>
      files (snd (download_file env url dest w)) dest = Some (concat chunks))"
proof (intro conjI allI impI)
  assume "net env url = Inr (Response status body)"
    and "net env' url = Inr (Response status' body)"
  then have answered: "net env url = Inr (Response status body)"
    and answered': "net env' url = Inr (Response status' body)"
    by simp_all
  show "download_file env' url dest w = download_file env url dest w"
  proof (cases "dest \<in> denied w")
    case True
    then show ?thesis
      by (simp add: download_file_denied [OF answered] download_file_denied [OF answered'])
  next
    case False
    obtain chunks failure where delivered: "body 1048576 = (chunks, failure)"
      by (cases "body 1048576")
    then have it: "iter_content (Response status body) 1048576 = (chunks, failure)"
      and it': "iter_content (Response status' body) 1048576 = (chunks, failure)"
      by simp_all
    show ?thesis
      by (simp add: download_file_streamed [OF answered False it]
          download_file_streamed [OF answered' False it'])
  qed
next
  fix chunks
  assume answered: "net env url = Inr (Response status body)"
    and delivered: "body 1048576 = (chunks, None)" and openable: "dest \<notin> denied w"
  from delivered have it: "iter_content (Response status body) 1048576 = (chunks, None)"
    by simp
  from download_file_streamed [OF answered openable it]
  show "fst (download_file env url dest w) = Inr dest" by simp
  from download_file_streamed [OF answered openable it]
  show "files (snd (download_file env url dest w)) dest = Some (concat chunks)" by simp
qed

theorem download_file_ignores_status_witness:
  "net not_found_env ''http://host/missing'' = Inr (Response 404 (\<lambda>n. ([''Not Found''], None))) \<and>
   net (not_found_env\<lparr>net := \<lambda>url. Inr (Response 200 (\<lambda>n. ([''Not Found''], None)))\<rparr>)
     ''http://host/missing'' = Inr (Response 200 (\<lambda>n. ([''Not Found''], None))) \<and>
   ''archive.gz'' \<notin> denied empty_world \<and>
   download_file not_found_env ''http://host/missing'' ''archive.gz'' empty_world =
     download_file (not_found_env\<lparr>net := \<lambda>url. Inr (Response 200 (\<lambda>n. ([''Not Found''], None)))\<rparr>)
       ''http://host/missing'' ''archive.gz'' empty_world \<and>
   fst (download_file not_found_env ''http://host/missing'' ''archive.gz'' empty_world) = Inr ''archive.gz'' \<and>
   files (snd (download_file not_found_env ''http://host/missing'' ''archive.gz'' empty_world)) ''archive.gz''
     = Some ''Not Found''"
proof -
  let ?ok = "not_found_env\<lparr>net := \<lambda>url. Inr (Response 200 (\<lambda>n. ([''Not Found''], None)))\<rparr>"
  have h1: "net not_found_env ''http://host/missing'' = Inr (Response 404 (\<lambda>n. ([''Not Found''], None)))"
    by (simp add: not_found_env_def not_found_response_def)
  have h2: "net ?ok ''http://host/missing'' = Inr (Response 200 (\<lambda>n. ([''Not Found''], None)))"
    by simp
  have h3: "''archive.gz'' \<notin> denied empty_world"
    by (simp add: empty_world_def)
  have h4: "(\<lambda>n::nat. ([''Not Found''], None :: error option)) 1048576 = ([''Not Found''], None)"
    by simp
  note first = download_file_ignores_status
    [of ?ok "''http://host/missing''" 200 "\<lambda>n. ([''Not Found''], None)" not_found_env 404
        "''archive.gz''" empty_world]
  from first h1 h2
  have c1: "download_file not_found_env ''http://host/missing'' ''archive.gz'' empty_world =
     download_file ?ok ''http://host/missing'' ''archive.gz'' empty_world"
    by blast
  note second = download_file_ignores_status
    [of not_found_env "''http://host/missing''" 404 "\<lambda>n. ([''Not Found''], None)" not_found_env 404
        "''archive.gz''" empty_world]
  from second h1 h3 h4
  have c2: "fst (download_file not_found_env ''http://host/missing'' ''archive.gz'' empty_world) = Inr ''archive.gz'' \<and>
   files (snd (download_file not_found_env ''http://host/missing'' ''archive.gz'' empty_world)) ''archive.gz''
     = Some (concat [''Not Found''])"
    by blast
  from h1 h2 h3 c1 c2 show ?thesis by simp
qed

text \<open>
  C7, as stated, fails: to an answer with status 404 \<^verbatim>\<open>download_file\<close> returns the
  destination path as for any other answer, and the destination file holds the error
  page.
\<close>

theorem download_file_non_200_counterexample:
  "status_code not_found_response \<noteq> 200 \<and>
   net not_found_env ''http://host/missing'' = Inr not_found_response \<and>
   download_file not_found_env ''http://host/missing'' ''archive.gz'' empty_world =
     (Inr ''archive.gz'',
      \<lparr>files = [''archive.gz'' \<mapsto> ''Not Found''], denied = {},
       calls = [Http_get ''http://host/missing'', File_write ''archive.gz'' 9]\<rparr>)"
proof -
  have h1: "net not_found_env ''http://host/missing'' = Inr not_found_response"
    by (simp add: not_found_env_def)
  have h2: "iter_content not_found_response 1048576 = ([''Not Found''], None)"
    by (simp add: not_found_response_def)
  have h3: "''archive.gz'' \<notin> denied empty_world"
    by (simp add: empty_world_def)
  from download_file_streamed [OF h1 h3 h2] h1 show ?thesis
    by (simp add: empty_world_def not_found_response_def)
qed

subsection \<open>Extraction\<close>

lemma concat_readlines: "concat (readlines bs) = bs"
  by (induction bs) (auto split: list.splits)

lemma readlines_nonempty: "l \<in> set (readlines bs) \<Longrightarrow> l \<noteq> []"
  by (induction bs arbitrary: l) (auto split: list.splits if_splits)

lemma write_lines_eq:
  "files w p = Some old \<Longrightarrow>
   write_lines p ls w =
     w\<lparr>files := (files w)(p \<mapsto> old @ concat ls),
       calls := calls w @ map (\<lambda>l. File_write p (length l)) ls\<rparr>"
proof (induction ls arbitrary: w old)
  case Nil
  then have "(files w)(p \<mapsto> old) = files w" by (rule map_upd_triv)
  then show ?case by simp
next
  case (Cons l ls)
  let ?w1 = "w\<lparr>files := (files w)(p \<mapsto> old @ l), calls := calls w @ [File_write p (length l)]\<rparr>"
  from Cons.prems have w1: "file_write p l w = ?w1"
    by (simp add: file_write_def record_call_def)
  have f1: "files ?w1 p = Some (old @ l)" by simp
  have "write_lines p (l # ls) w = write_lines p ls ?w1" using w1 by simp
  also have "\<dots> = ?w1\<lparr>files := (files ?w1)(p \<mapsto> (old @ l) @ concat ls),
            calls := calls ?w1 @ map (\<lambda>l. File_write p (length l)) ls\<rparr>"
    by (rule Cons.IH [OF f1])
  also have "\<dots> = w\<lparr>files := (files w)(p \<mapsto> old @ concat (l # ls)),
          calls := calls w @ map (\<lambda>l. File_write p (length l)) (l # ls)\<rparr>"
    by simp
  finally show ?case .
qed

lemma readlines_lines:
  "l \<in> set (readlines bs) \<Longrightarrow> CHR 0x0A \<notin> set (butlast l)"
  by (induction bs arbitrary: l) (auto split: list.splits if_splits)

lemma readlines_head: "readlines bs = l # ls \<Longrightarrow> l \<noteq> []"
  using readlines_nonempty [of l bs] by simp

lemma readlines_terminated:
  "l \<in> set (butlast (readlines bs)) \<Longrightarrow> last l = CHR 0x0A"
  by (induction bs arbitrary: l) (auto split: list.splits if_splits dest: readlines_head)

lemma extract_archive_missing:
  "files w src = None \<Longrightarrow>
   extract_archive env src out w = (Inl IOError, w\<lparr>calls := calls w @ [Gzip_open src]\<rparr>)"
  by (simp add: extract_archive_def gzip_open_def os_path_exists_def record_call_def)

lemma extract_archive_denied:
  "files w src = Some z \<Longrightarrow> out \<in> denied w \<Longrightarrow>
   extract_archive env src out w = (Inl IOError, w\<lparr>calls := calls w @ [Gzip_open src]\<rparr>)"
  by (simp add: extract_archive_def gzip_open_def os_path_exists_def record_call_def open_w_def)

lemma extract_archive_eq:
  assumes "files w src = Some z" and "out \<notin> denied w"
    and "gunzip env (if out = src then [] else z) = (d, ok)"
  shows "extract_archive env src out w =
           (if ok then Inr () else Inl IOError,
            w\<lparr>files := (files w)(out \<mapsto> d),
              calls := calls w @ Gzip_open src # map (\<lambda>l. File_write out (length l)) (readlines d)\<rparr>)"
proof -
  let ?w2 = "w\<lparr>calls := calls w @ [Gzip_open src], files := (files w)(out \<mapsto> [])\<rparr>"
  have f: "files ?w2 out = Some []" by simp
  from assms have r: "gzip_read env src ?w2 = (d, ok)"
    by (cases "out = src") (simp_all add: gzip_read_def)
  have "write_lines out (readlines d) ?w2 =
      ?w2\<lparr>files := (files ?w2)(out \<mapsto> [] @ concat (readlines d)),
          calls := calls ?w2 @ map (\<lambda>l. File_write out (length l)) (readlines d)\<rparr>"
    by (rule write_lines_eq [OF f])
  then have "write_lines out (readlines d) ?w2 =
      w\<lparr>files := (files w)(out \<mapsto> d),
        calls := calls w @ Gzip_open src # map (\<lambda>l. File_write out (length l)) (readlines d)\<rparr>"
    by (simp add: concat_readlines)
  with assms r show ?thesis
    by (simp add: extract_archive_def gzip_open_def os_path_exists_def record_call_def open_w_def)
qed

lemma extract_archive_calls:
  "\<exists>ns. calls (snd (extract_archive env src out w)) =
          calls w @ Gzip_open src # map (\<lambda>n. File_write out n) ns"
proof (cases "files w src")
  case None
  then have "calls (snd (extract_archive env src out w)) = calls w @ Gzip_open src # map (\<lambda>n. File_write out n) []"
    by (simp add: extract_archive_missing)
  then show ?thesis by blast
next
  case (Some z)
  show ?thesis
  proof (cases "out \<in> denied w")
    case True
    with Some have "calls (snd (extract_archive env src out w)) = calls w @ Gzip_open src # map (\<lambda>n. File_write out n) []"
      by (simp add: extract_archive_denied)
    then show ?thesis by blast
  next
    case False
    obtain d ok where g: "gunzip env (if out = src then [] else z) = (d, ok)"
      by (cases "gunzip env (if out = src then [] else z)")
    have "calls (snd (extract_archive env src out w)) =
        calls w @ Gzip_open src # map (\<lambda>n. File_write out n) (map length (readlines d))"
      by (simp add: extract_archive_eq [OF Some False g] o_def)
    then show ?thesis by blast
  qed
qed

text \<open>
  C6. When the archive at \<open>src\<close> is well formed and decompresses to \<open>d\<close>, and the
  output file (another file than the archive) can be opened, the extraction step succeeds
  and the output file holds exactly \<open>d\<close>; no other file changes. The copy goes line by
  line, in order: the lines written are those of \<open>d\<close>, each ends at its newline byte
  except possibly the last, and put end to end they are \<open>d\<close>.
\<close>

theorem extract_archive_copies_lines:
  assumes "files w src = Some z" and "gunzip env z = (d, True)"
    and "out \<notin> denied w" and "out \<noteq> src"
  shows "fst (extract_archive env src out w) = Inr () \<and>
         files (snd (extract_archive env src out w)) out = Some d \<and>
         (\<forall>p. p \<noteq> out \<longrightarrow> files (snd (extract_archive env src out w)) p = files w p) \<and>
         new_calls w (snd (extract_archive env src out w)) =
           Gzip_open src # map (\<lambda>l. File_write out (length l)) (readlines d) \<and>
         concat (readlines d) = d \<and>
         (\<forall>l \<in> set (readlines d). l \<noteq> [] \<and> CHR 0x0A \<notin> set (butlast l)) \<and>
         (\<forall>l \<in> set (butlast (readlines d)). last l = CHR 0x0A)"
proof -
  from assms have g: "gunzip env (if out = src then [] else z) = (d, True)" by simp
  have eq: "extract_archive env src out w =
      (Inr (), w\<lparr>files := (files w)(out \<mapsto> d),
         calls := calls w @ Gzip_open src # map (\<lambda>l. File_write out (length l)) (readlines d)\<rparr>)"
    using extract_archive_eq [OF assms(1) assms(3) g] by simp
  have l1: "\<forall>l \<in> set (readlines d). l \<noteq> [] \<and> CHR 0x0A \<notin> set (butlast l)"
    using readlines_nonempty readlines_lines by blast
  have l2: "\<forall>l \<in> set (butlast (readlines d)). last l = CHR 0x0A"
    using readlines_terminated by blast
  from eq l1 l2 show ?thesis by (simp add: new_calls_def concat_readlines)
qed

theorem extract_archive_copies_lines_witness:
  "files archived_world embedding_downloaded_path = Some archive_bytes \<and>
   gunzip serving_env archive_bytes = (text_lines, True) \<and>
   ''../resources/embedding.bin'' \<notin> denied archived_world \<and>
   ''../resources/embedding.bin'' \<noteq> embedding_downloaded_path \<and>
   fst (extract_archive serving_env embedding_downloaded_path ''../resources/embedding.bin'' archived_world)
     = Inr () \<and>
   files (snd (extract_archive serving_env embedding_downloaded_path ''../resources/embedding.bin''
     archived_world)) ''../resources/embedding.bin'' = Some text_lines"
proof -
  have h1: "files archived_world embedding_downloaded_path = Some archive_bytes"
    by (simp add: archived_world_def)
  have h2: "gunzip serving_env archive_bytes = (text_lines, True)"
    by (simp add: serving_env_def stored_gunzip_def archive_bytes_def)
  have h3: "''../resources/embedding.bin'' \<notin> denied archived_world"
    by (simp add: archived_world_def)
  have h4: "''../resources/embedding.bin'' \<noteq> embedding_downloaded_path"
    by (simp add: embedding_downloaded_path_def)
  from extract_archive_copies_lines [OF h1 h2 h3 h4] h1 h2 h3 h4 show ?thesis by blast
qed

subsection \<open>The two gates of download_embedding\<close>

lemma fetch_if_necessary_present:
  "os_path_exists w embedding_downloaded_path \<Longrightarrow> fetch_if_necessary env w = (Inr (), w)"
  by (simp add: fetch_if_necessary_def)

lemma fetch_if_necessary_absent:
  "\<not> os_path_exists w embedding_downloaded_path \<Longrightarrow>
   fetch_if_necessary env w =
     (map_sum id (\<lambda>p. ()) (fst (download_file env embedding_download_link embedding_downloaded_path w)),
      snd (download_file env embedding_download_link embedding_downloaded_path w))"
  by (cases "download_file env embedding_download_link embedding_downloaded_path w")
    (auto simp: fetch_if_necessary_def split: sum.splits)

lemma fetch_if_necessary_ok_iff:
  "fst (fetch_if_necessary env w) = Inr () \<longleftrightarrow>
     os_path_exists w embedding_downloaded_path \<or>
     (\<exists>r. net env embedding_download_link = Inr r \<and> snd (iter_content r 1048576) = None \<and>
          embedding_downloaded_path \<notin> denied w)"
proof (cases "os_path_exists w embedding_downloaded_path")
  case True
  then show ?thesis by (simp add: fetch_if_necessary_present)
next
  case absent: False
  show ?thesis
  proof (cases "net env embedding_download_link")
    case (Inl e)
    with absent show ?thesis
      by (simp add: fetch_if_necessary_absent download_file_raised)
  next
    case (Inr r)
    show ?thesis
    proof (cases "embedding_downloaded_path \<in> denied w")
      case True
      with absent Inr show ?thesis
        by (simp add: fetch_if_necessary_absent download_file_denied)
    next
      case False
      obtain chunks failure where it: "iter_content r 1048576 = (chunks, failure)"
        by (cases "iter_content r 1048576")
      with absent Inr False show ?thesis
        by (cases failure)
          (simp_all add: fetch_if_necessary_absent download_file_streamed [OF Inr False it])
    qed
  qed
qed

lemma fetch_if_necessary_ok_exists:
  assumes "fst (fetch_if_necessary env w) = Inr ()"
  shows "os_path_exists (snd (fetch_if_necessary env w)) embedding_downloaded_path"
proof (cases "os_path_exists w embedding_downloaded_path")
  case True
  then show ?thesis by (simp add: fetch_if_necessary_present)
next
  case absent: False
  with assms obtain r where r: "net env embedding_download_link = Inr r"
    and openable: "embedding_downloaded_path \<notin> denied w"
    by (auto simp: fetch_if_necessary_ok_iff)
  obtain chunks failure where it: "iter_content r 1048576 = (chunks, failure)"
    by (cases "iter_content r 1048576")
  from absent show ?thesis
    by (simp add: fetch_if_necessary_absent download_file_streamed [OF r openable it]
        os_path_exists_def)
qed

lemma fetch_if_necessary_calls:
  "\<exists>ns. calls (snd (fetch_if_necessary env w)) =
          calls w @ (if os_path_exists w embedding_downloaded_path then []
                     else Http_get embedding_download_link #
                          map (\<lambda>n. File_write embedding_downloaded_path n) ns)"
proof (cases "os_path_exists w embedding_downloaded_path")
  case True
  then show ?thesis by (simp add: fetch_if_necessary_present)
next
  case False
  obtain ns where "calls (snd (download_file env embedding_download_link embedding_downloaded_path w)) =
      calls w @ Http_get embedding_download_link # map (\<lambda>n. File_write embedding_downloaded_path n) ns"
    using download_file_calls by blast
  with False have "calls (snd (fetch_if_necessary env w)) =
      calls w @ Http_get embedding_download_link # map (\<lambda>n. File_write embedding_downloaded_path n) ns"
    by (simp add: fetch_if_necessary_absent)
  with False show ?thesis by (simp only: if_False) blast
qed

lemma extract_if_necessary_calls:
  "\<exists>ns. calls (snd (extract_if_necessary env w)) =
          calls w @ (if os_path_exists w (get_conf env ''embedding_path'') then []
                     else Gzip_open embedding_downloaded_path #
                          map (\<lambda>n. File_write (get_conf env ''embedding_path'') n) ns)"
proof (cases "os_path_exists w (get_conf env ''embedding_path'')")
  case True
  then show ?thesis by (simp add: extract_if_necessary_def)
next
  case False
  from extract_archive_calls [of env embedding_downloaded_path "get_conf env ''embedding_path''" w]
  obtain ns where "calls (snd (extract_archive env embedding_downloaded_path (get_conf env ''embedding_path'') w)) =
      calls w @ Gzip_open embedding_downloaded_path # map (\<lambda>n. File_write (get_conf env ''embedding_path'') n) ns"
    by blast
  with False have "calls (snd (extract_if_necessary env w)) =
      calls w @ Gzip_open embedding_downloaded_path # map (\<lambda>n. File_write (get_conf env ''embedding_path'') n) ns"
    by (simp add: extract_if_necessary_def)
  with False show ?thesis by (simp only: if_False) blast
qed

lemma filter_http_get_writes [simp]: "filter is_http_get (map (\<lambda>n. File_write p n) ns) = []"
  by (induction ns) simp_all

lemma filter_gzip_open_writes [simp]: "filter is_gzip_open (map (\<lambda>n. File_write p n) ns) = []"
  by (induction ns) simp_all

lemma download_embedding_cases:
  "download_embedding env w =
     (if fst (fetch_if_necessary env w) = Inr ()
      then extract_if_necessary env (snd (fetch_if_necessary env w))
      else fetch_if_necessary env w)"
  by (cases "fetch_if_necessary env w") (auto simp: download_embedding_def split: sum.splits)

lemma download_embedding_http_gets:
  "filter is_http_get (new_calls w (snd (download_embedding env w))) =
     (if os_path_exists w embedding_downloaded_path then [] else [Http_get embedding_download_link])"
proof -
  let ?w1 = "snd (fetch_if_necessary env w)"
  obtain ns where c1: "calls ?w1 =
      calls w @ (if os_path_exists w embedding_downloaded_path then []
                 else Http_get embedding_download_link # map (\<lambda>n. File_write embedding_downloaded_path n) ns)"
    using fetch_if_necessary_calls by blast
  obtain ms where c2: "calls (snd (extract_if_necessary env ?w1)) =
      calls ?w1 @ (if os_path_exists ?w1 (get_conf env ''embedding_path'') then []
                   else Gzip_open embedding_downloaded_path #
                        map (\<lambda>n. File_write (get_conf env ''embedding_path'') n) ms)"
    using extract_if_necessary_calls by blast
  show ?thesis
  proof (cases "fst (fetch_if_necessary env w) = Inr ()")
    case True
    then have "download_embedding env w = extract_if_necessary env ?w1"
      by (simp add: download_embedding_cases)
    with c1 c2 show ?thesis by (simp add: new_calls_def)
  next
    case False
    then have "download_embedding env w = fetch_if_necessary env w"
      by (simp add: download_embedding_cases)
    with c1 show ?thesis by (simp add: new_calls_def)
  qed
qed



text \<open>
  C2. From every filesystem state, a run of \<^verbatim>\<open>download_embedding\<close> requests the download
  link if and only if the compressed archive does not exist; this is the only network
  operation of the run, and there is none when the archive exists.
\<close>

theorem download_embedding_fetches_iff_archive_missing:
  "(Http_get embedding_download_link \<in> set (new_calls w (snd (download_embedding env w)))
      \<longleftrightarrow> \<not> os_path_exists w embedding_downloaded_path) \<and>
   filter is_http_get (new_calls w (snd (download_embedding env w))) =
     (if os_path_exists w embedding_downloaded_path then [] else [Http_get embedding_download_link])"
proof -
  let ?new = "new_calls w (snd (download_embedding env w))"
  have f: "filter is_http_get ?new =
      (if os_path_exists w embedding_downloaded_path then [] else [Http_get embedding_download_link])"
    by (rule download_embedding_http_gets)
  have "Http_get embedding_download_link \<in> set ?new
      \<longleftrightarrow> Http_get embedding_download_link \<in> set (filter is_http_get ?new)"
    by simp
  with f show ?thesis by simp
qed

theorem download_embedding_fetches_iff_archive_missing_witness:
  "os_path_exists archived_world embedding_downloaded_path \<and>
   filter is_http_get (new_calls archived_world (snd (download_embedding serving_env archived_world))) = [] \<and>
   \<not> os_path_exists empty_world embedding_downloaded_path \<and>
   filter is_http_get (new_calls empty_world (snd (download_embedding serving_env empty_world)))
     = [Http_get embedding_download_link]"
proof -
  have h1: "os_path_exists archived_world embedding_downloaded_path"
    by (simp add: os_path_exists_def archived_world_def)
  have h2: "\<not> os_path_exists empty_world embedding_downloaded_path"
    by (simp add: os_path_exists_def empty_world_def)
  from download_embedding_fetches_iff_archive_missing [of archived_world serving_env] h1
  have c1: "filter is_http_get (new_calls archived_world (snd (download_embedding serving_env archived_world))) = []"
    by simp
  from download_embedding_fetches_iff_archive_missing [of empty_world serving_env] h2
  have c2: "filter is_http_get (new_calls empty_world (snd (download_embedding serving_env empty_world)))
     = [Http_get embedding_download_link]"
    by simp
  from h1 h2 c1 c2 show ?thesis by blast
qed




lemma download_embedding_ready:
  "os_path_exists w embedding_downloaded_path \<Longrightarrow>
   os_path_exists w (get_conf env ''embedding_path'') \<Longrightarrow>
   download_embedding env w = (Inr (), w)"
  by (simp add: download_embedding_def fetch_if_necessary_def extract_if_necessary_def)

text \<open>
  C4. With both the archive and the extracted file present, \<^verbatim>\<open>download_embedding\<close>
  returns without any operation on the network, on an archive or on a file, and the
  filesystem is as before.
\<close>

theorem download_embedding_noop_when_ready:
  assumes "os_path_exists w embedding_downloaded_path"
    and "os_path_exists w (get_conf env ''embedding_path'')"
  shows "download_embedding env w = (Inr (), w) \<and>
         new_calls w (snd (download_embedding env w)) = [] \<and>
         files (snd (download_embedding env w)) = files w"
  using assms
  by (simp add: download_embedding_def fetch_if_necessary_def extract_if_necessary_def new_calls_def)

theorem download_embedding_noop_when_ready_witness:
  "os_path_exists ready_world embedding_downloaded_path \<and>
   os_path_exists ready_world (get_conf serving_env ''embedding_path'') \<and>
   download_embedding serving_env ready_world = (Inr (), ready_world)"
proof -
  have h1: "os_path_exists ready_world embedding_downloaded_path"
    by (simp add: os_path_exists_def ready_world_def)
  have h2: "os_path_exists ready_world (get_conf serving_env ''embedding_path'')"
    by (simp add: os_path_exists_def ready_world_def serving_env_def)
  from download_embedding_noop_when_ready [OF h1 h2] h1 h2 show ?thesis by blast
qed

text \<open>
  C10. When the body of the answer is empty and the destination can be opened,
  \<^verbatim>\<open>download_file\<close> returns the destination path and leaves an empty file at the
  destination, which therefore exists; when the destination is the path of the compressed
  archive, a run of \<^verbatim>\<open>download_embedding\<close> that follows makes no request.
\<close>

theorem download_file_empty_body:
  assumes "net env url = Inr r" and "iter_content r 1048576 = (chunks, None)"
    and "concat chunks = []" and "dest \<notin> denied w"
  shows "fst (download_file env url dest w) = Inr dest \<and>
         files (snd (download_file env url dest w)) dest = Some [] \<and>
         os_path_exists (snd (download_file env url dest w)) dest \<and>
         (dest = embedding_downloaded_path \<longrightarrow>
            filter is_http_get
              (new_calls (snd (download_file env url dest w))
                 (snd (download_embedding env' (snd (download_file env url dest w))))) = [])"
proof -
  let ?w1 = "snd (download_file env url dest w)"
  from download_file_streamed [OF assms(1) assms(4) assms(2)] assms(3)
  have res: "fst (download_file env url dest w) = Inr dest"
    and emptied: "files ?w1 dest = Some []"
    by simp_all
  from emptied have ex: "os_path_exists ?w1 dest" by (simp add: os_path_exists_def)
  have "filter is_http_get (new_calls ?w1 (snd (download_embedding env' ?w1))) = []"
    if "dest = embedding_downloaded_path"
    using that ex by (simp add: download_embedding_http_gets)
  with res emptied ex show ?thesis by simp
qed

theorem download_file_empty_body_witness:
  "net empty_body_env embedding_download_link = Inr (Response 200 (\<lambda>n. ([], None))) \<and>
   concat ([] :: bytes list) = [] \<and>
   embedding_downloaded_path \<notin> denied empty_world \<and>
   fst (download_file empty_body_env embedding_download_link embedding_downloaded_path empty_world)
     = Inr embedding_downloaded_path \<and>
   files (snd (download_file empty_body_env embedding_download_link embedding_downloaded_path
     empty_world)) embedding_downloaded_path = Some [] \<and>
   filter is_http_get
     (new_calls (snd (download_file empty_body_env embedding_download_link embedding_downloaded_path empty_world))
        (snd (download_embedding empty_body_env
           (snd (download_file empty_body_env embedding_download_link embedding_downloaded_path empty_world)))))
     = []"
proof -
  have h1: "net empty_body_env embedding_download_link = Inr (Response 200 (\<lambda>n. ([], None)))"
    by (simp add: empty_body_env_def)
  have h2: "iter_content (Response 200 (\<lambda>n. ([], None))) 1048576 = ([], None)" by simp
  have h3: "concat ([] :: bytes list) = []" by simp
  have h4: "embedding_downloaded_path \<notin> denied empty_world"
    by (simp add: empty_world_def)
  from download_file_empty_body [OF h1 h2 h3 h4, of empty_body_env] h1 h3 h4 show ?thesis by blast
qed

text \<open>
  A run of \<^verbatim>\<open>download_embedding\<close> that returned normally leaves both files in place: a
  second run does nothing.
\<close>

lemma download_embedding_rerun:
  assumes "fst (download_embedding env w) = Inr ()"
  shows "download_embedding env (snd (download_embedding env w)) = (Inr (), snd (download_embedding env w))"
proof -
  let ?w1 = "snd (fetch_if_necessary env w)"
  let ?conf = "get_conf env ''embedding_path''"
  have ok1: "fst (fetch_if_necessary env w) = Inr ()"
  proof (rule ccontr)
    assume "fst (fetch_if_necessary env w) \<noteq> Inr ()"
    then have "download_embedding env w = fetch_if_necessary env w"
      by (simp add: download_embedding_cases)
    with assms \<open>fst (fetch_if_necessary env w) \<noteq> Inr ()\<close> show False by simp
  qed
  then have run: "download_embedding env w = extract_if_necessary env ?w1"
    by (simp add: download_embedding_cases)
  from ok1 have ex1: "os_path_exists ?w1 embedding_downloaded_path"
    by (rule fetch_if_necessary_ok_exists)
  show ?thesis
  proof (cases "os_path_exists ?w1 ?conf")
    case True
    then have "extract_if_necessary env ?w1 = (Inr (), ?w1)"
      by (simp add: extract_if_necessary_def)
    with run ex1 True show ?thesis by (simp add: download_embedding_ready)
  next
    case False
    then have ex: "extract_if_necessary env ?w1 = extract_archive env embedding_downloaded_path ?conf ?w1"
      by (simp add: extract_if_necessary_def)
    from ex1 obtain z where z: "files ?w1 embedding_downloaded_path = Some z"
      by (auto simp: os_path_exists_def)
    have nd: "?conf \<notin> denied ?w1"
    proof
      assume "?conf \<in> denied ?w1"
      with z have "fst (extract_archive env embedding_downloaded_path ?conf ?w1) = Inl IOError"
        by (simp add: extract_archive_denied)
      with assms run ex show False by simp
    qed
    obtain d ok where g: "gunzip env (if ?conf = embedding_downloaded_path then [] else z) = (d, ok)"
      by (cases "gunzip env (if ?conf = embedding_downloaded_path then [] else z)")
    let ?w2 = "snd (extract_archive env embedding_downloaded_path ?conf ?w1)"
    from extract_archive_eq [OF z nd g]
    have f2: "files ?w2 = (files ?w1)(?conf \<mapsto> d)" by simp
    from f2 have "os_path_exists ?w2 ?conf" by (simp add: os_path_exists_def)
    moreover from f2 z have "os_path_exists ?w2 embedding_downloaded_path"
      by (simp add: os_path_exists_def)
    ultimately have "download_embedding env ?w2 = (Inr (), ?w2)"
      by (simp add: download_embedding_ready)
    with run ex show ?thesis by simp
  qed
qed

end
